theory Spec2Isabelle
  imports Main "HOL-Library.Sublist" "HOL-Library.AList"
begin

section \<open>JavaScript values\<close>

text \<open>
  The capture scripts build plain JavaScript objects and export them with
  \<^verbatim>\<open>JSON.stringify\<close>. A value is modelled by a tree; an object is its list of
  properties in insertion order. A string is the list of its code units. Numbers are
  restricted to integers: the scripts only store counts, status codes and millisecond
  differences, and of a parsed response only whether it is zero matters.
\<close>

datatype jsv =
    JUndefined
  | JNull
  | JBool bool
  | JNum int
  | JStr string
  | JArr "jsv list"
  | JObj "(string \<times> jsv) list"

type_synonym jsobj = "(string \<times> jsv) list"

text \<open>\<^verbatim>\<open>obj.k\<close>: a property that was never assigned reads as \<^verbatim>\<open>undefined\<close>.\<close>

definition get_field :: "string \<Rightarrow> jsobj \<Rightarrow> jsv" where
  "get_field k obj = (case map_of obj k of None \<Rightarrow> JUndefined | Some v \<Rightarrow> v)"

text \<open>\<^verbatim>\<open>obj.k = v\<close>: overwrites in place, or appends a new property.\<close>

definition set_field :: "string \<Rightarrow> jsv \<Rightarrow> jsobj \<Rightarrow> jsobj" where
  "set_field k v obj = AList.update k v obj"

text \<open>\<^verbatim>\<open>k in obj\<close>: the property is present (whatever its value).\<close>

definition has_field :: "string \<Rightarrow> jsobj \<Rightarrow> bool" where
  "has_field k obj = (k \<in> set (map fst obj))"

text \<open>Truthiness, as \<^verbatim>\<open>if\<close>, \<^verbatim>\<open>&&\<close>, \<^verbatim>\<open>||\<close> and \<^verbatim>\<open>?:\<close> test it.\<close>

fun truthy :: "jsv \<Rightarrow> bool" where
  "truthy JUndefined = False"
| "truthy JNull = False"
| "truthy (JBool b) = b"
| "truthy (JNum n) = (n \<noteq> 0)"
| "truthy (JStr s) = (s \<noteq> [])"
| "truthy (JArr xs) = True"
| "truthy (JObj kvs) = True"

text \<open>\<^verbatim>\<open>a || b\<close>\<close>

definition js_or :: "jsv \<Rightarrow> jsv \<Rightarrow> jsv" where
  "js_or a b = (if truthy a then a else b)"

text \<open>\<^verbatim>\<open>s.includes(t)\<close> on strings: \<open>t\<close> occurs in \<open>s\<close> as a contiguous run.\<close>

fun str_includes :: "string \<Rightarrow> string \<Rightarrow> bool" where
  "str_includes [] t = (t = [])"
| "str_includes (c # s) t = (prefix t (c # s) \<or> str_includes s t)"

text \<open>\<^verbatim>\<open>s.substring(0, n)\<close>\<close>

definition substring0 :: "nat \<Rightarrow> string \<Rightarrow> string" where
  "substring0 n s = take n s"

text \<open>
  \<^verbatim>\<open>s.split(sep)\<close> for a non-empty separator: the pieces between the occurrences of
  \<open>sep\<close>, scanning from the left. \<open>acc\<close> holds the current piece, reversed.
\<close>

function split_acc :: "string \<Rightarrow> string \<Rightarrow> string \<Rightarrow> string list" where
  "split_acc sep acc [] = [rev acc]"
| "split_acc sep acc (c # cs) =
     (if sep \<noteq> [] \<and> prefix sep (c # cs)
      then rev acc # split_acc sep [] (drop (length sep) (c # cs))
      else split_acc sep (c # acc) cs)"
  by pat_completeness auto
termination
  by (relation "measure (\<lambda>(sep, acc, s). length s)") auto

definition split :: "string \<Rightarrow> string \<Rightarrow> string list" where
  "split sep s = (if sep = [] then map (\<lambda>c. [c]) s else split_acc sep [] s)"

text \<open>
  What the scripts ask of the browser and cannot decide themselves:
  \<^verbatim>\<open>JSON.parse(text)\<close> (\<open>None\<close> when it throws), and the length of
  \<^verbatim>\<open>JSON.stringify(v)\<close>.
\<close>

record platform =
  json_parse :: "string \<Rightarrow> jsv option"
  json_length :: "jsv \<Rightarrow> nat"

text \<open>One reading of the clock: \<^verbatim>\<open>Date.now()\<close> and \<^verbatim>\<open>new Date().toISOString()\<close>.\<close>

record clock =
  ms :: int
  iso :: string

text \<open>An exception value; only its \<^verbatim>\<open>message\<close> is ever read.\<close>

datatype exn = Exn (message: string)

text \<open>
  The first argument of \<^verbatim>\<open>fetch\<close> and the second of \<^verbatim>\<open>xhr.open\<close>: a string, an
  object that denotes an address (a \<^verbatim>\<open>Request\<close> or a \<^verbatim>\<open>URL\<close>, with no
  \<^verbatim>\<open>includes\<close> method), or nothing (\<^verbatim>\<open>undefined\<close>, \<^verbatim>\<open>null\<close>).
\<close>

datatype url_arg = UrlString string | UrlObject string | UrlMissing

text \<open>Which function a global entry point currently holds.\<close>

datatype impl = Original | Wrapper


section \<open>The script \<^verbatim>\<open>extract_no_har.js\<close>\<close>

subsection \<open>State\<close>

text \<open>
  An \<^verbatim>\<open>XMLHttpRequest\<close> object as the script sees it: the three properties the
  \<^verbatim>\<open>open\<close> wrapper stores on it, and the listeners the \<^verbatim>\<open>send\<close> wrapper has
  attached. Each \<^verbatim>\<open>send\<close> attaches one \<^verbatim>\<open>load\<close> and one \<^verbatim>\<open>error\<close> listener
  closing over the same \<^verbatim>\<open>requestData\<close> and \<^verbatim>\<open>startTime\<close>; they are never removed.
\<close>

record xhr =
  captureMethod :: jsv
  captureUrl :: url_arg
  captureStartTime :: "int option"
  listeners :: "(nat \<times> int option) list"

definition new_xhr :: xhr where
  "new_xhr = \<lparr>captureMethod = JUndefined, captureUrl = UrlMissing,
              captureStartTime = None, listeners = []\<rparr>"

text \<open>
  The script's variables. \<^verbatim>\<open>requestData\<close> objects are shared between the array
  \<^verbatim>\<open>capturedData.requests\<close> and the listeners that fill them in, so they live in a
  store and are referred to by address; the address of an object is its \<^verbatim>\<open>id\<close>
  (\<^verbatim>\<open>requestCounter\<close> only grows, so ids are never reused). \<open>awaited\<close> lists the
  invocations of the \<^verbatim>\<open>fetch\<close> wrapper suspended at \<^verbatim>\<open>await originalFetch\<close>, each
  with its \<^verbatim>\<open>startTime\<close>. \<open>downloads\<close> is the files delivered so far.
\<close>

record capture =
  started :: string
  requests :: "nat list"
  stopped :: "string option"
  totalRequests :: "nat option"
  requestCounter :: nat
  store :: "nat \<Rightarrow> jsobj"
  xhrs :: "nat \<Rightarrow> xhr"
  awaited :: "(nat \<times> int) list"
  window_fetch :: impl
  xhr_open :: impl
  xhr_send :: impl
  downloads :: "jsobj list"

text \<open>The state once the script has been pasted: both wrappers installed, nothing captured.\<close>

definition start_capture :: "clock \<Rightarrow> capture" where
  "start_capture clk =
     \<lparr>started = iso clk, requests = [], stopped = None, totalRequests = None,
      requestCounter = 0, store = (\<lambda>a. []), xhrs = (\<lambda>x. new_xhr), awaited = [],
      window_fetch = Wrapper, xhr_open = Wrapper, xhr_send = Wrapper, downloads = []\<rparr>"

subsection \<open>The filter\<close>

definition inScope :: "string \<Rightarrow> bool" where
  "inScope url = (str_includes url ''api.mpg'' \<or> str_includes url ''mpg.football/api'')"

text \<open>
  \<^verbatim>\<open>url && (url.includes(..) || url.includes(..))\<close>: a missing or empty url is falsy;
  an object is truthy and has no \<^verbatim>\<open>includes\<close>, so calling it throws a TypeError.
\<close>

fun capture_test :: "(string \<Rightarrow> bool) \<Rightarrow> url_arg \<Rightarrow> exn + bool" where
  "capture_test f UrlMissing = Inr False"
| "capture_test f (UrlString s) = Inr (s \<noteq> [] \<and> f s)"
| "capture_test f (UrlObject a) = Inl (Exn ''url.includes is not a function'')"

text \<open>What a wrapper did with a call: threw before reaching the original entry point,
  passed the call on to it, or passed it on and is awaiting its result to record it.\<close>

datatype forwarded = Threw exn | PassedOn | Awaiting nat

subsection \<open>The XMLHttpRequest wrappers\<close>

text \<open>The argument of \<^verbatim>\<open>send\<close>: nothing, a string, or any other body.\<close>

datatype body = NoBody | TextBody string | BinaryBody

definition xhr_open_wrapper :: "capture \<Rightarrow> nat \<Rightarrow> string \<Rightarrow> url_arg \<Rightarrow> clock \<Rightarrow> capture" where
  "xhr_open_wrapper st x method url clk =
     st\<lparr>xhrs := (xhrs st)(x := (xhrs st x)\<lparr>captureMethod := JStr method, captureUrl := url,
                                            captureStartTime := Some (ms clk)\<rparr>)\<rparr>"

text \<open>\<^verbatim>\<open>body ? (typeof body === 'string' ? body : '[Binary Data]') : null\<close>\<close>

fun requestBody_of :: "body \<Rightarrow> jsv" where
  "requestBody_of NoBody = JNull"
| "requestBody_of (TextBody s) = (if s \<noteq> [] then JStr s else JNull)"
| "requestBody_of BinaryBody = JStr ''[Binary Data]''"

definition xhr_send_wrapper :: "capture \<Rightarrow> nat \<Rightarrow> body \<Rightarrow> clock \<Rightarrow> capture \<times> forwarded" where
  "xhr_send_wrapper st x b clk =
     (let this = xhrs st x; url = captureUrl this; method = captureMethod this;
          startTime = captureStartTime this
      in case capture_test inScope url of
           Inl e \<Rightarrow> (st, Threw e)
         | Inr False \<Rightarrow> (st, PassedOn)
         | Inr True \<Rightarrow>
             (let reqId = requestCounter st + 1;
                  requestData =
                    [(''id'', JNum (int reqId)),
                     (''url'', (case url of UrlString s \<Rightarrow> JStr s | _ \<Rightarrow> JUndefined)),
                     (''method'', method),
                     (''timestamp'', JStr (iso clk)),
                     (''type'', JStr ''xhr''),
                     (''requestBody'', requestBody_of b)]
              in (st\<lparr>requestCounter := reqId,
                     store := (store st)(reqId := requestData),
                     xhrs := (xhrs st)(x := this\<lparr>listeners := listeners this @ [(reqId, startTime)]\<rparr>)\<rparr>,
                  PassedOn)))"

text \<open>What a finished request shows on the object when \<^verbatim>\<open>load\<close> fires.\<close>

record xhr_response =
  xhr_status :: nat
  xhr_statusText :: string
  responseText :: string
  allResponseHeaders :: string

text \<open>The header table: one entry per line of the form \<^verbatim>\<open>name: value\<close>.\<close>

definition parse_headers :: "string \<Rightarrow> jsobj" where
  "parse_headers headersString =
     (if headersString \<noteq> []
      then foldl (\<lambda>hdrs line.
                    (let parts = split '': '' line
                     in if length parts = 2
                        then set_field (parts ! 0) (JStr (parts ! 1)) hdrs else hdrs))
             [] (split [CHR 0x0D, CHR 0x0A] headersString)
      else [])"

text \<open>The \<^verbatim>\<open>load\<close> listener of one \<^verbatim>\<open>send\<close>. \<^verbatim>\<open>Date.now() - startTime\<close> with no start
  time is NaN, which is exported as nothing; it cannot arise, since the url and the start
  time are stored together.\<close>

definition xhr_load_listener ::
    "platform \<Rightarrow> xhr_response \<Rightarrow> clock \<Rightarrow> capture \<Rightarrow> nat \<times> int option \<Rightarrow> capture" where
  "xhr_load_listener P r clk st l =
     (let reqId = fst l;
          duration = (case snd l of Some startTime \<Rightarrow> JNum (ms clk - startTime)
                                   | None \<Rightarrow> JUndefined);
          d1 = set_field ''status'' (JNum (int (xhr_status r))) (store st reqId);
          d2 = set_field ''statusText'' (JStr (xhr_statusText r)) d1;
          d3 = set_field ''duration'' duration d2;
          d4 = set_field ''responseSize'' (JNum (int (length (responseText r)))) d3;
          d5 = (case json_parse P (responseText r) of
                  Some v \<Rightarrow> set_field ''response'' v d4
                | None \<Rightarrow> set_field ''responseText''
                            (JStr (substring0 1000 (responseText r))) d4);
          d6 = set_field ''responseHeaders'' (JObj (parse_headers (allResponseHeaders r))) d5
      in st\<lparr>store := (store st)(reqId := d6), requests := requests st @ [reqId]\<rparr>)"

text \<open>The \<^verbatim>\<open>error\<close> listener of one \<^verbatim>\<open>send\<close>.\<close>

definition xhr_error_listener :: "capture \<Rightarrow> nat \<times> int option \<Rightarrow> capture" where
  "xhr_error_listener st l =
     (let reqId = fst l;
          d1 = set_field ''status'' (JNum 0) (store st reqId);
          d2 = set_field ''error'' (JStr ''Network Error'') d1
      in st\<lparr>store := (store st)(reqId := d2), requests := requests st @ [reqId]\<rparr>)"


subsection \<open>The fetch wrapper\<close>

text \<open>
  How the original \<^verbatim>\<open>fetch\<close> settles. Of a response the wrapper reads the status
  line and, from a clone, the body: \<open>json_read\<close> is what \<^verbatim>\<open>clone.json()\<close>
  resolves to (\<open>None\<close> when it rejects), and \<open>text_read\<close> is what the
  \<^verbatim>\<open>text()\<close> call that the wrapper makes after a failed \<^verbatim>\<open>json()\<close> resolves to
  (\<open>None\<close> when it rejects too).
\<close>

record response =
  status :: nat
  statusText :: string
  json_read :: "jsv option"
  text_read :: "string option"

datatype outcome = Resolved response | Rejected exn

text \<open>
  The wrapper up to \<^verbatim>\<open>await originalFetch.apply(this, args)\<close>. \<open>options\<close> is
  \<^verbatim>\<open>args[1] || {}\<close>.
\<close>

definition fetch_wrapper :: "capture \<Rightarrow> url_arg \<Rightarrow> jsobj \<Rightarrow> clock \<Rightarrow> capture \<times> forwarded" where
  "fetch_wrapper st url options clk =
     (let startTime = ms clk
      in case capture_test inScope url of
           Inl e \<Rightarrow> (st, Threw e)
         | Inr False \<Rightarrow> (st, PassedOn)
         | Inr True \<Rightarrow>
             (let reqId = requestCounter st + 1;
                  method = js_or (get_field ''method'' options) (JStr ''GET'');
                  requestData =
                    [(''id'', JNum (int reqId)),
                     (''url'', (case url of UrlString s \<Rightarrow> JStr s | _ \<Rightarrow> JUndefined)),
                     (''method'', method),
                     (''timestamp'', JStr (iso clk)),
                     (''type'', JStr ''fetch''),
                     (''requestBody'', js_or (get_field ''body'' options) JNull)]
              in (st\<lparr>requestCounter := reqId,
                     store := (store st)(reqId := requestData),
                     awaited := awaited st @ [(reqId, startTime)]\<rparr>,
                  Awaiting reqId)))"

text \<open>
  The rest of the wrapper, once the original \<^verbatim>\<open>fetch\<close> has settled: what it records
  and what it hands to its caller (the response it returns, or the error it rethrows).
\<close>

definition fetch_wrapper_resume ::
    "platform \<Rightarrow> capture \<Rightarrow> nat \<times> int \<Rightarrow> outcome \<Rightarrow> clock \<Rightarrow> capture \<times> outcome" where
  "fetch_wrapper_resume P st c out clk =
     (let reqId = fst c; startTime = snd c;
          st' = st\<lparr>awaited := filter (\<lambda>i. fst i \<noteq> reqId) (awaited st)\<rparr>
      in case out of
           Resolved resp \<Rightarrow>
             (let duration = ms clk - startTime;
                  d1 = set_field ''status'' (JNum (int (status resp))) (store st reqId);
                  d2 = set_field ''statusText'' (JStr (statusText resp)) d1;
                  d3 = set_field ''duration'' (JNum duration) d2;
                  d4 = (case json_read resp of
                          Some responseData \<Rightarrow>
                            set_field ''responseSize'' (JNum (int (json_length P responseData)))
                              (set_field ''response'' responseData d3)
                        | None \<Rightarrow>
                            (case text_read resp of
                               Some text \<Rightarrow>
                                 set_field ''responseSize'' (JNum (int (length text)))
                                   (set_field ''responseText'' (JStr (substring0 1000 text)) d3)
                             | None \<Rightarrow> d3))
              in (st'\<lparr>store := (store st)(reqId := d4), requests := requests st @ [reqId]\<rparr>,
                  Resolved resp))
         | Rejected error \<Rightarrow>
             (let d1 = set_field ''error'' (JStr (message error)) (store st reqId)
              in (st'\<lparr>store := (store st)(reqId := d1), requests := requests st @ [reqId]\<rparr>,
                  Rejected error)))"

subsection \<open>Stopping\<close>

text \<open>The projection of one \<^verbatim>\<open>requestData\<close> into the exported schema.\<close>

definition project_call :: "jsobj \<Rightarrow> jsobj" where
  "project_call req =
     [(''url'', get_field ''url'' req),
      (''method'', get_field ''method'' req),
      (''status'', get_field ''status'' req),
      (''timestamp'', get_field ''timestamp'' req),
      (''response'', js_or (get_field ''response'' req) (js_or (get_field ''responseText'' req) JNull)),
      (''duration_ms'', get_field ''duration'' req)]"

text \<open>\<open>href\<close> is \<^verbatim>\<open>window.location.href\<close>.\<close>

definition outputData :: "capture \<Rightarrow> string \<Rightarrow> jsobj" where
  "outputData st href =
     [(''scrape_timestamp'', (case stopped st of Some t \<Rightarrow> JStr t | None \<Rightarrow> JUndefined)),
      (''url'', JStr href),
      (''api_calls'', JArr (map (\<lambda>req. JObj (project_call (store st req))) (requests st))),
      (''total_captured'', JNum (int (length (requests st))))]"

text \<open>
  \<^verbatim>\<open>window.stopCapture\<close>. \<open>delivered\<close> tells whether the block that serializes the
  data and triggers the download runs to its end; when it throws, the error is caught,
  the data is printed, and the function returns the data all the same.
\<close>

definition stopCapture :: "capture \<Rightarrow> clock \<Rightarrow> string \<Rightarrow> bool \<Rightarrow> capture \<times> jsobj" where
  "stopCapture st clk href delivered =
     (let st1 = st\<lparr>window_fetch := Original, xhr_open := Original, xhr_send := Original\<rparr>;
          st2 = st1\<lparr>stopped := Some (iso clk), totalRequests := Some (length (requests st1))\<rparr>;
          out = outputData st2 href
      in (if delivered then st2\<lparr>downloads := downloads st2 @ [out]\<rparr> else st2, out))"

subsection \<open>A session as a sequence of events\<close>

text \<open>
  What can happen while the page runs: the page opens or sends on the request object
  \<open>x\<close>; the browser fires \<^verbatim>\<open>load\<close>, \<^verbatim>\<open>error\<close>, or another terminal event
  (\<^verbatim>\<open>abort\<close>, \<^verbatim>\<open>timeout\<close>) on it; the page calls \<^verbatim>\<open>fetch\<close>; the original
  \<^verbatim>\<open>fetch\<close> of the recorded call \<open>reqId\<close> settles; the operator calls
  \<^verbatim>\<open>stopCapture()\<close>; the ten-minute timer fires. A call from the page goes through
  whatever the entry point holds at that moment; listeners and suspended wrapper
  invocations stay alive after the entry points are restored.
\<close>

datatype event =
    XhrOpen nat string url_arg clock
  | XhrSend nat body clock
  | XhrLoad nat xhr_response clock
  | XhrError nat
  | XhrOther nat
  | Fetch url_arg jsobj clock
  | FetchSettled nat outcome clock
  | StopCapture clock string bool
  | AutoStop clock string bool

fun step :: "platform \<Rightarrow> capture \<Rightarrow> event \<Rightarrow> capture" where
  "step P st (XhrOpen x method url clk) =
     (if xhr_open st = Wrapper then xhr_open_wrapper st x method url clk else st)"
| "step P st (XhrSend x b clk) =
     (if xhr_send st = Wrapper then fst (xhr_send_wrapper st x b clk) else st)"
| "step P st (XhrLoad x r clk) = foldl (xhr_load_listener P r clk) st (listeners (xhrs st x))"
| "step P st (XhrError x) = foldl xhr_error_listener st (listeners (xhrs st x))"
| "step P st (XhrOther x) = st"
| "step P st (Fetch url options clk) =
     (if window_fetch st = Wrapper then fst (fetch_wrapper st url options clk) else st)"
| "step P st (FetchSettled reqId out clk) =
     (case map_of (awaited st) reqId of
        None \<Rightarrow> st
      | Some startTime \<Rightarrow> fst (fetch_wrapper_resume P st (reqId, startTime) out clk))"
| "step P st (StopCapture clk href delivered) = fst (stopCapture st clk href delivered)"
| "step P st (AutoStop clk href delivered) = fst (stopCapture st clk href delivered)"

definition run :: "platform \<Rightarrow> capture \<Rightarrow> event list \<Rightarrow> capture" where
  "run P st evs = foldl (step P) st evs"

text \<open>The buffer as the operator sees it: the recorded objects, in order.\<close>

definition buffer :: "capture \<Rightarrow> jsobj list" where
  "buffer st = map (store st) (requests st)"


section \<open>The script \<^verbatim>\<open>extract_data_simple.js\<close>\<close>

text \<open>
  The simple variant has no ids: a \<^verbatim>\<open>requestInfo\<close> object is referred to by the
  address it was allocated at. \<open>load_listeners\<close> are the objects whose \<^verbatim>\<open>load\<close>
  listener is attached to a request object; the variant attaches no other listener.
\<close>

record simple_xhr =
  mpg_method :: jsv
  mpg_url :: url_arg
  load_listeners :: "nat list"

record simple_capture =
  capturedRequests :: "nat list"
  objects :: "nat \<Rightarrow> jsobj"
  allocated :: nat
  simple_xhrs :: "nat \<Rightarrow> simple_xhr"

definition simple_inScope :: "string \<Rightarrow> bool" where
  "simple_inScope url = (str_includes url ''api.mpg'' \<or> str_includes url ''mpg.football'')"

text \<open>The value stored under \<^verbatim>\<open>url\<close>: the argument as it was passed.\<close>

fun url_value :: "url_arg \<Rightarrow> jsv" where
  "url_value (UrlString s) = JStr s"
| "url_value (UrlObject a) = JObj []"
| "url_value UrlMissing = JUndefined"

definition simple_xhr_open :: "simple_capture \<Rightarrow> nat \<Rightarrow> string \<Rightarrow> url_arg \<Rightarrow> simple_capture" where
  "simple_xhr_open st x method url =
     st\<lparr>simple_xhrs := (simple_xhrs st)(x := (simple_xhrs st x)\<lparr>mpg_method := JStr method,
                                                                  mpg_url := url\<rparr>)\<rparr>"

definition simple_xhr_send :: "simple_capture \<Rightarrow> nat \<Rightarrow> clock \<Rightarrow> simple_capture \<times> forwarded" where
  "simple_xhr_send st x clk =
     (let this = simple_xhrs st x; url = mpg_url this; method = mpg_method this
      in case capture_test simple_inScope url of
           Inl e \<Rightarrow> (st, Threw e)
         | Inr False \<Rightarrow> (st, PassedOn)
         | Inr True \<Rightarrow>
             (let a = allocated st;
                  requestInfo =
                    [(''url'', url_value url),
                     (''method'', method),
                     (''timestamp'', JStr (iso clk)),
                     (''type'', JStr ''xhr'')]
              in (st\<lparr>allocated := a + 1,
                     objects := (objects st)(a := requestInfo),
                     simple_xhrs := (simple_xhrs st)(x := this\<lparr>load_listeners := load_listeners this @ [a]\<rparr>)\<rparr>,
                  PassedOn)))"

definition simple_load_listener ::
    "platform \<Rightarrow> xhr_response \<Rightarrow> simple_capture \<Rightarrow> nat \<Rightarrow> simple_capture" where
  "simple_load_listener P r st a =
     (let i1 = set_field ''status'' (JNum (int (xhr_status r))) (objects st a);
          i2 = (case json_parse P (responseText r) of
                  Some responseData \<Rightarrow> set_field ''response'' responseData i1
                | None \<Rightarrow> set_field ''response_text''
                            (JStr (substring0 500 (responseText r))) i1)
      in st\<lparr>objects := (objects st)(a := i2), capturedRequests := capturedRequests st @ [a]\<rparr>)"

definition simple_xhr_load :: "platform \<Rightarrow> simple_capture \<Rightarrow> nat \<Rightarrow> xhr_response \<Rightarrow> simple_capture" where
  "simple_xhr_load P st x r = foldl (simple_load_listener P r) st (load_listeners (simple_xhrs st x))"

text \<open>
  One invocation of the \<^verbatim>\<open>fetch\<close> wrapper, from the call to the value handed to the
  caller. The wrapper awaits the original \<^verbatim>\<open>fetch\<close> first, outside any
  \<^verbatim>\<open>try\<close>, and only then looks at the url; \<open>clk\<close> is the clock at that moment.
  Here \<open>text_read\<close> is read from a second clone of the response.
\<close>

definition simple_fetch_wrapper ::
    "platform \<Rightarrow> simple_capture \<Rightarrow> url_arg \<Rightarrow> jsobj \<Rightarrow> outcome \<Rightarrow> clock \<Rightarrow> simple_capture \<times> outcome" where
  "simple_fetch_wrapper P st url options out clk =
     (case out of
        Rejected error \<Rightarrow> (st, Rejected error)
      | Resolved resp \<Rightarrow>
          (case capture_test simple_inScope url of
             Inl e \<Rightarrow> (st, Rejected e)
           | Inr False \<Rightarrow> (st, Resolved resp)
           | Inr True \<Rightarrow>
               (let a = allocated st;
                    requestInfo =
                      [(''url'', url_value url),
                       (''method'', js_or (get_field ''method'' options) (JStr ''GET'')),
                       (''timestamp'', JStr (iso clk)),
                       (''type'', JStr ''fetch''),
                       (''status'', JNum (int (status resp)))];
                    i1 = (case json_read resp of
                            Some responseData \<Rightarrow> set_field ''response'' responseData requestInfo
                          | None \<Rightarrow>
                              (case text_read resp of
                                 Some text \<Rightarrow> set_field ''response_text''
                                               (JStr (substring0 500 text)) requestInfo
                               | None \<Rightarrow> requestInfo))
                in (st\<lparr>allocated := a + 1, objects := (objects st)(a := i1),
                       capturedRequests := capturedRequests st @ [a]\<rparr>,
                    Resolved resp))))"

text \<open>The exported object, built when the countdown has run out.\<close>

definition simple_data :: "simple_capture \<Rightarrow> clock \<Rightarrow> string \<Rightarrow> jsobj" where
  "simple_data st clk href =
     [(''scrape_timestamp'', JStr (iso clk)),
      (''url'', JStr href),
      (''api_calls'', JArr (map (\<lambda>a. JObj (objects st a)) (capturedRequests st))),
      (''total_captured'', JNum (int (length (capturedRequests st))))]"

section \<open>The full extractor\<close>

text \<open>
  The first script of the repository (\<^verbatim>\<open>extract_data.js\<close> in the README) also walks
  ambient application state. The values it walks are arbitrary run-time values: they
  live on a heap, may refer to each other in cycles, and reading one of their properties
  may throw.
\<close>

subsection \<open>safeSerialize\<close>

datatype hval =
    HNull
  | HUndefined
  | HString string
  | HNumber int
  | HBoolean bool
  | HFunction
  | HOther
  | HRef nat

text \<open>A property or an element: it holds a value, or reading it throws.\<close>

datatype slot = Holds hval | Guarded

text \<open>An array, or any other object: its enumerable properties in enumeration order,
  and whether the enumeration itself throws after them.\<close>

datatype hobj = HArray "slot list" | HObject "(string \<times> slot) list" bool

type_synonym heap = "nat \<Rightarrow> hobj"

text \<open>The results of a run of steps, up to the first that throws.\<close>

fun collect :: "(exn + 'a) list \<Rightarrow> exn + 'a list" where
  "collect [] = Inr []"
| "collect (x # xs) =
     (case x of
        Inl e \<Rightarrow> Inl e
      | Inr v \<Rightarrow> (case collect xs of Inl e \<Rightarrow> Inl e | Inr vs \<Rightarrow> Inr (v # vs)))"

text \<open>\<^verbatim>\<open>obj[key]\<close>, which may throw.\<close>

fun read_slot :: "slot \<Rightarrow> exn + hval" where
  "read_slot (Holds v) = Inr v"
| "read_slot Guarded = Inl (Exn ''access denied'')"

text \<open>The keys the loop skips.\<close>

definition skipped_key :: "string \<Rightarrow> bool" where
  "skipped_key key = (key = ''toJSON'' \<or> str_includes key ''iframe'' \<or> str_includes key ''frame'')"

function safeSerialize :: "heap \<Rightarrow> nat \<Rightarrow> nat \<Rightarrow> hval \<Rightarrow> exn + jsv" where
  "safeSerialize h maxDepth currentDepth obj =
     (if currentDepth > maxDepth then Inr (JStr ''[Max Depth Reached]'')
      else case obj of
        HNull \<Rightarrow> Inr JNull
      | HUndefined \<Rightarrow> Inr JUndefined
      | HString s \<Rightarrow> Inr (JStr s)
      | HNumber n \<Rightarrow> Inr (JNum n)
      | HBoolean b \<Rightarrow> Inr (JBool b)
      | HFunction \<Rightarrow> Inr (JStr ''[Function]'')
      | HOther \<Rightarrow> Inr (JStr ''[Unknown Type]'')
      | HRef a \<Rightarrow>
          (case h a of
             HArray items \<Rightarrow>
               (case collect (map (\<lambda>item.
                        case read_slot item of
                          Inl e \<Rightarrow> Inl e
                        | Inr v \<Rightarrow> safeSerialize h maxDepth (currentDepth + 1) v) items) of
                  Inl e \<Rightarrow> Inr (JStr ''[Array - Access Denied]'')
                | Inr rs \<Rightarrow> Inr (JArr rs))
           | HObject props enum_throws \<Rightarrow>
               (let attempts = map (\<lambda>p. (fst p,
                        case read_slot (snd p) of
                          Inl e \<Rightarrow> Inl e
                        | Inr v \<Rightarrow> safeSerialize h maxDepth (currentDepth + 1) v))
                      (filter (\<lambda>p. \<not> skipped_key (fst p)) props);
                    result = foldl (\<lambda>result p.
                        case snd p of
                          Inl e \<Rightarrow> set_field (fst p) (JStr ''[Access Denied]'') result
                        | Inr v \<Rightarrow> set_field (fst p) v result) [] attempts
                in if enum_throws then Inr (JStr ''[Object - Access Denied]'')
                   else Inr (JObj result))))"
  by pat_completeness auto
termination
  by (relation "measure (\<lambda>(h, maxDepth, currentDepth, obj). Suc maxDepth - currentDepth)") auto

declare safeSerialize.simps [simp del]

text \<open>\<^verbatim>\<open>safeSerialize(value)\<close>, as every call site writes it: \<^verbatim>\<open>maxDepth = 3\<close>,
  \<^verbatim>\<open>currentDepth = 0\<close>.\<close>

definition safeSerialize_default :: "heap \<Rightarrow> hval \<Rightarrow> exn + jsv" where
  "safeSerialize_default h obj = safeSerialize h 3 0 obj"

text \<open>The nesting depth of a serialized value.\<close>

fun nesting :: "jsv \<Rightarrow> nat" where
  "nesting (JArr xs) = Suc (foldr max (map nesting xs) 0)"
| "nesting (JObj kvs) = Suc (foldr max (map (\<lambda>p. nesting (snd p)) kvs) 0)"
| "nesting v = 0"


subsection \<open>Recording and export\<close>

text \<open>
  One invocation of the extractor's \<^verbatim>\<open>fetch\<close> wrapper, which records every call
  (it has no filter). \<open>clk\<close> is the clock at the call. The response is stored as
  \<^verbatim>\<open>JSON.parse(JSON.stringify(responseData))\<close>, which for a value read by
  \<^verbatim>\<open>json()\<close> is the value itself.
\<close>

definition extractor_fetch_wrapper ::
    "jsobj list \<Rightarrow> url_arg \<Rightarrow> jsobj \<Rightarrow> outcome \<Rightarrow> clock \<Rightarrow> jsobj list \<times> outcome" where
  "extractor_fetch_wrapper captured url options out clk =
     (let requestInfo =
            [(''url'', url_value url),
             (''method'', js_or (get_field ''method'' options) (JStr ''GET'')),
             (''timestamp'', JStr (iso clk)),
             (''type'', JStr ''fetch'')]
      in case out of
           Resolved resp \<Rightarrow>
             (let i1 = set_field ''status'' (JNum (int (status resp))) requestInfo;
                  i2 = (case json_read resp of
                          Some responseData \<Rightarrow> set_field ''response'' responseData i1
                        | None \<Rightarrow>
                            (case text_read resp of
                               Some text \<Rightarrow>
                                 set_field ''response_preview'' (JStr (substring0 200 text))
                                   (set_field ''response_type'' (JStr ''text'') i1)
                             | None \<Rightarrow> set_field ''response_type'' (JStr ''non-serializable'') i1))
              in (captured @ [i2], Resolved resp))
         | Rejected error \<Rightarrow>
             (captured @ [set_field ''error'' (JStr (message error)) requestInfo],
              Rejected error))"

text \<open>
  The \<^verbatim>\<open>data\<close> object at export time: created first with the ambient state under
  \<^verbatim>\<open>extracted_data\<close>, then given \<^verbatim>\<open>api_calls\<close>.
\<close>

definition extractor_data :: "clock \<Rightarrow> string \<Rightarrow> jsobj \<Rightarrow> jsobj list \<Rightarrow> jsobj" where
  "extractor_data clk href extracted captured =
     set_field ''api_calls'' (JArr (map JObj captured))
       [(''scrape_timestamp'', JStr (iso clk)),
        (''url'', JStr href),
        (''extracted_data'', JObj extracted)]"

definition fallbackData :: "jsobj \<Rightarrow> jsobj" where
  "fallbackData data =
     [(''scrape_timestamp'', get_field ''scrape_timestamp'' data),
      (''url'', get_field ''url'' data),
      (''api_calls'', get_field ''api_calls'' data),
      (''note'', JStr ''Some data could not be serialized due to security restrictions'')]"

text \<open>
  The download. \<open>full_attempt\<close> is what the block that serializes and delivers
  \<^verbatim>\<open>data\<close> throws (\<open>None\<close> when it runs to its end), \<open>fallback_attempt\<close> the same
  for the block in the \<^verbatim>\<open>catch\<close>, which is not guarded. The result is the object
  whose serialization was delivered, or the error that escapes.
\<close>

definition export_data :: "jsobj \<Rightarrow> exn option \<Rightarrow> exn option \<Rightarrow> exn + jsobj" where
  "export_data data full_attempt fallback_attempt =
     (case full_attempt of
        None \<Rightarrow> Inr data
      | Some error \<Rightarrow>
          (case fallback_attempt of
             None \<Rightarrow> Inr (fallbackData data)
           | Some error2 \<Rightarrow> Inl error2))"

section \<open>Reading the exported document\<close>

text \<open>\<^verbatim>\<open>v.length\<close> of an array.\<close>

fun array_length :: "jsv \<Rightarrow> jsv" where
  "array_length (JArr xs) = JNum (int (length xs))"
| "array_length v = JUndefined"

text \<open>The keys of an object value.\<close>

fun keys_of :: "jsv \<Rightarrow> string list" where
  "keys_of (JObj kvs) = map fst kvs"
| "keys_of v = []"

text \<open>The elements of an array value.\<close>

fun elements :: "jsv \<Rightarrow> jsv list" where
  "elements (JArr xs) = xs"
| "elements v = []"

text \<open>How many of the three completion fields an entry of the buffer carries; the preview
  is called \<^verbatim>\<open>responseText\<close> in one variant and \<^verbatim>\<open>response_text\<close> in the other.\<close>

definition completion_fields :: "jsobj \<Rightarrow> nat" where
  "completion_fields obj =
     (if has_field ''response'' obj then 1 else 0) +
     (if has_field ''responseText'' obj \<or> has_field ''response_text'' obj then 1 else 0) +
     (if has_field ''error'' obj then 1 else 0)"

section \<open>Sample inputs\<close>

text \<open>Concrete clocks, a concrete parser and concrete start states, for the instances below.
  The parser knows four JSON texts and rejects everything else.\<close>

definition clock0 :: clock where
  "clock0 = \<lparr>ms = 0, iso = ''2024-01-01T00:00:00.000Z''\<rparr>"

definition clock1 :: clock where
  "clock1 = \<lparr>ms = 1000, iso = ''2024-01-01T00:00:01.000Z''\<rparr>"

definition clock2 :: clock where
  "clock2 = \<lparr>ms = 600000, iso = ''2024-01-01T00:10:00.000Z''\<rparr>"

definition sample_platform :: platform where
  "sample_platform =
     \<lparr>json_parse = (\<lambda>s. if s = ''[1]'' then Some (JArr [JNum 1])
                         else if s = ''false'' then Some (JBool False)
                         else if s = ''0'' then Some (JNum 0)
                         else if s = ''null'' then Some JNull
                         else None),
      json_length = (\<lambda>v. if v = JArr [JNum 1] then 3 else if v = JBool False then 5
                          else if v = JNum 0 then 1 else 4)\<rparr>"

definition simple_start :: simple_capture where
  "simple_start =
     \<lparr>capturedRequests = [], objects = (\<lambda>a. []), allocated = 0,
      simple_xhrs = (\<lambda>x. \<lparr>mpg_method = JUndefined, mpg_url = UrlMissing, load_listeners = []\<rparr>)\<rparr>"

text \<open>A heap with a cycle and with unbounded nesting: object 0 refers to itself, and every
  other address holds an array whose only element is the next address.\<close>

definition cyclic_heap :: heap where
  "cyclic_heap = (\<lambda>a. if a = 0
                       then HObject [(''self'', Holds (HRef 0)), (''name'', Holds (HString ''app''))] False
                       else HArray [Holds (HRef (a + 1))])"

section \<open>Invariants of a session\<close>

text \<open>The objects still referred to: by the array, by a suspended \<^verbatim>\<open>fetch\<close> wrapper
  or by a listener.\<close>

definition live :: "capture \<Rightarrow> nat set" where
  "live st = set (requests st) \<union> fst ` set (awaited st)
             \<union> (\<Union>x. fst ` set (listeners (xhrs st x)))"

text \<open>The url an object was recorded with is a string that matches the filter.\<close>

definition url_in_scope :: "jsobj \<Rightarrow> bool" where
  "url_in_scope obj = (case get_field ''url'' obj of JStr u \<Rightarrow> inScope u | _ \<Rightarrow> False)"

text \<open>Every object referred to has been allocated and was recorded for a matching url.\<close>

definition consistent :: "capture \<Rightarrow> bool" where
  "consistent st = (\<forall>a \<in> live st. a \<le> requestCounter st \<and> url_in_scope (store st a))"

section \<open>Basic facts\<close>

lemma has_field_set_field [simp]:
  "has_field k (set_field k' v obj) = (k = k' \<or> has_field k obj)"
  using AList.dom_update [of k' v obj] by (auto simp: has_field_def set_field_def)

lemma get_field_set_field [simp]:
  "get_field k (set_field k' v obj) = (if k = k' then v else get_field k obj)"
  by (simp add: get_field_def set_field_def update_conv')

lemma has_field_Cons [simp]:
  "has_field k ((k', v) # obj) = (k = k' \<or> has_field k obj)"
  by (auto simp: has_field_def)

lemma has_field_Nil [simp]: "\<not> has_field k []"
  by (simp add: has_field_def)

lemma get_field_Cons [simp]:
  "get_field k ((k', v) # obj) = (if k = k' then v else get_field k obj)"
  by (simp add: get_field_def)

lemma get_field_Nil [simp]: "get_field k [] = JUndefined"
  by (simp add: get_field_def)

lemma length_substring0 [simp]: "length (substring0 n s) = min (length s) n"
  by (simp add: substring0_def)

lemma str_includes_sublist: "str_includes s t = sublist t s"
  by (induction s) (auto simp: sublist_Cons_right)

section \<open>The artifact counts its calls\<close>

text \<open>
  C1. In both variants the exported document's \<^verbatim>\<open>total_captured\<close> is the length of
  its \<^verbatim>\<open>api_calls\<close> array, whatever the session did, and a delivered file is that
  document. With nothing captured the array is empty and the count 0.
\<close>

theorem total_captured_is_length:
  "get_field ''total_captured'' (snd (stopCapture st clk href delivered))
     = array_length (get_field ''api_calls'' (snd (stopCapture st clk href delivered)))
   \<and> length (elements (get_field ''api_calls'' (snd (stopCapture st clk href delivered))))
     = length (requests st)
   \<and> downloads (fst (stopCapture st clk href True))
     = downloads st @ [snd (stopCapture st clk href True)]
   \<and> get_field ''total_captured'' (simple_data sst clk href)
     = array_length (get_field ''api_calls'' (simple_data sst clk href))
   \<and> get_field ''api_calls'' (snd (stopCapture (start_capture clk0) clk href delivered)) = JArr []
   \<and> get_field ''total_captured'' (snd (stopCapture (start_capture clk0) clk href delivered)) = JNum 0
   \<and> get_field ''api_calls'' (simple_data (sst\<lparr>capturedRequests := []\<rparr>) clk href) = JArr []
   \<and> get_field ''total_captured'' (simple_data (sst\<lparr>capturedRequests := []\<rparr>) clk href) = JNum 0"
  by (simp add: stopCapture_def outputData_def simple_data_def start_capture_def Let_def)


section \<open>Stopping twice\<close>



section \<open>The export fallback\<close>

text \<open>
  C8, as the code has it. When the first download block throws, the extractor delivers
  \<^verbatim>\<open>fallbackData\<close>: exactly the keys \<^verbatim>\<open>scrape_timestamp\<close>, \<^verbatim>\<open>url\<close>,
  \<^verbatim>\<open>api_calls\<close> and \<^verbatim>\<open>note\<close>, the first three with the values they have in the
  full data, so \<^verbatim>\<open>api_calls\<close> is the whole buffer with every field of every record;
  \<^verbatim>\<open>extracted_data\<close> is dropped. When the fallback block throws too, that error
  escapes; when the first block succeeds, the full data is delivered.
\<close>

theorem fallback_keeps_whole_records:
  "export_data data (Some e) None = Inr (fallbackData data)
   \<and> export_data data (Some e) (Some e2) = Inl e2
   \<and> export_data data None fb = Inr data
   \<and> keys_of (JObj (fallbackData data)) = [''scrape_timestamp'', ''url'', ''api_calls'', ''note'']
   \<and> get_field ''note'' (fallbackData data)
       = JStr ''Some data could not be serialized due to security restrictions''
   \<and> \<not> has_field ''extracted_data'' (fallbackData data)
   \<and> get_field ''scrape_timestamp'' (fallbackData data) = get_field ''scrape_timestamp'' data
   \<and> get_field ''url'' (fallbackData data) = get_field ''url'' data
   \<and> get_field ''api_calls'' (fallbackData data) = get_field ''api_calls'' data
   \<and> get_field ''api_calls'' (fallbackData (extractor_data clk href extracted captured))
       = JArr (map JObj captured)
   \<and> has_field ''extracted_data'' (extractor_data clk href extracted captured)"
  by (simp add: export_data_def fallbackData_def extractor_data_def)

text \<open>
  C8 as stated fails: the calls of the fallback are not restricted to url, method,
  status, timestamp and response or preview. After one recorded \<^verbatim>\<open>fetch\<close>, the
  fallback's only call still has its \<^verbatim>\<open>type\<close> key.
\<close>

theorem fallback_call_has_type_key:
  "(let captured = fst (extractor_fetch_wrapper [] (UrlString ''https://api.mpg.football/x'') []
                     (Resolved \<lparr>status = 200, statusText = ''OK'',
                                json_read = Some (JArr [JNum 1]), text_read = None\<rparr>)
                     clock0);
        data = extractor_data clock0 ''https://mpg.football/'' [(''localStorage'', JObj [])] captured
    in export_data data (Some (Exn ''cannot serialize'')) None = Inr (fallbackData data)
     \<and> map keys_of (elements (get_field ''api_calls'' (fallbackData data)))
         = [[''url'', ''method'', ''timestamp'', ''type'', ''status'', ''response'']])"
  by (simp add: extractor_fetch_wrapper_def extractor_data_def export_data_def fallbackData_def
        js_or_def Let_def set_field_def clock0_def)

section \<open>Calls whose address is not a string\<close>

text \<open>
  C9 at the failing input. \<^verbatim>\<open>fetch\<close> and \<^verbatim>\<open>xhr.open\<close> accept a \<^verbatim>\<open>Request\<close> or
  \<^verbatim>\<open>URL\<close> object for the address; the wrappers call \<^verbatim>\<open>url.includes\<close> on it. In
  \<^verbatim>\<open>extract_no_har.js\<close> the \<^verbatim>\<open>fetch\<close> and \<^verbatim>\<open>send\<close> wrappers throw before they
  reach the original entry point; in \<^verbatim>\<open>extract_data_simple.js\<close> the \<^verbatim>\<open>fetch\<close>
  wrapper has already received the response and rejects instead of returning it.
\<close>

theorem wrappers_throw_on_url_objects:
  "fetch_wrapper (start_capture clock0) (UrlObject ''https://other.com/x'') [] clock1
     = (start_capture clock0, Threw (Exn ''url.includes is not a function''))
   \<and> snd (xhr_send_wrapper
        (xhr_open_wrapper (start_capture clock0) 0 ''GET'' (UrlObject ''https://other.com/x'') clock1)
        0 NoBody clock1)
     = Threw (Exn ''url.includes is not a function'')
   \<and> snd (simple_fetch_wrapper sample_platform simple_start (UrlObject ''https://other.com/x'') []
        (Resolved \<lparr>status = 200, statusText = ''OK'', json_read = None, text_read = None\<rparr>)
        clock1)
     = Rejected (Exn ''url.includes is not a function'')"
  by (simp add: fetch_wrapper_def xhr_send_wrapper_def xhr_open_wrapper_def simple_fetch_wrapper_def
        start_capture_def new_xhr_def Let_def)

section \<open>The safe serializer is bounded\<close>

lemma foldr_max_le: "foldr max (map f xs) (0::nat) \<le> n \<longleftrightarrow> (\<forall>x \<in> set xs. f x \<le> n)"
  by (induction xs) auto

lemma collect_Inr: "collect xs = Inr rs \<Longrightarrow> map Inr rs = xs"
  by (induction xs arbitrary: rs) (auto split: sum.splits)

lemma set_field_values:
  "\<forall>kv \<in> set obj. Q (snd kv) \<Longrightarrow> Q v \<Longrightarrow> \<forall>kv \<in> set (set_field k v obj). Q (snd kv)"
  unfolding set_field_def by (induction obj) auto

lemma fill_result_bound:
  assumes "\<forall>kv \<in> set acc. nesting (snd kv) \<le> n"
    and "\<forall>p \<in> set attempts. \<forall>v. snd p = Inr v \<longrightarrow> nesting v \<le> n"
  shows "\<forall>kv \<in> set (foldl (\<lambda>result p.
            case snd p of
              Inl e \<Rightarrow> set_field (fst p) (JStr ''[Access Denied]'') result
            | Inr v \<Rightarrow> set_field (fst p) v result) acc attempts). nesting (snd kv) \<le> n"
  using assms
proof (induction attempts arbitrary: acc)
  case Nil
  then show ?case by simp
next
  case (Cons p ps)
  let ?acc' = "(case snd p of
              Inl e \<Rightarrow> set_field (fst p) (JStr ''[Access Denied]'') acc
            | Inr v \<Rightarrow> set_field (fst p) v acc)"
  have "\<forall>kv \<in> set ?acc'. nesting (snd kv) \<le> n"
  proof (cases "snd p")
    case (Inl e)
    then show ?thesis
      using set_field_values [of acc "\<lambda>v. nesting v \<le> n" "JStr ''[Access Denied]''" "fst p"] Cons.prems(1)
      by simp
  next
    case (Inr v)
    then show ?thesis
      using set_field_values [of acc "\<lambda>v. nesting v \<le> n" v "fst p"] Cons.prems
      by simp
  qed
  then show ?case using Cons.IH [of ?acc'] Cons.prems(2) by simp
qed


lemma safeSerialize_returns: "\<exists>r. safeSerialize h maxDepth d obj = Inr r"
  by (subst safeSerialize.simps) (simp split: hval.splits hobj.splits sum.splits add: Let_def)

lemma safeSerialize_beyond:
  "maxDepth < d \<Longrightarrow> safeSerialize h maxDepth d obj = Inr (JStr ''[Max Depth Reached]'')"
  by (subst safeSerialize.simps) simp

lemma safeSerialize_eval:
  "safeSerialize h m d HNull = Inr (if m < d then JStr ''[Max Depth Reached]'' else JNull)"
  "safeSerialize h m d HUndefined = Inr (if m < d then JStr ''[Max Depth Reached]'' else JUndefined)"
  "safeSerialize h m d (HString s) = Inr (if m < d then JStr ''[Max Depth Reached]'' else JStr s)"
  "safeSerialize h m d (HNumber n) = Inr (if m < d then JStr ''[Max Depth Reached]'' else JNum n)"
  "safeSerialize h m d (HBoolean b) = Inr (if m < d then JStr ''[Max Depth Reached]'' else JBool b)"
  "safeSerialize h m d HFunction = Inr (if m < d then JStr ''[Max Depth Reached]'' else JStr ''[Function]'')"
  "safeSerialize h m d HOther = Inr (if m < d then JStr ''[Max Depth Reached]'' else JStr ''[Unknown Type]'')"
  "safeSerialize h m d (HRef a) =
     (if m < d then Inr (JStr ''[Max Depth Reached]'')
      else case h a of
             HArray items \<Rightarrow>
               (case collect (map (\<lambda>item.
                        case read_slot item of
                          Inl e \<Rightarrow> Inl e
                        | Inr v \<Rightarrow> safeSerialize h m (d + 1) v) items) of
                  Inl e \<Rightarrow> Inr (JStr ''[Array - Access Denied]'')
                | Inr rs \<Rightarrow> Inr (JArr rs))
           | HObject props enum_throws \<Rightarrow>
               (let attempts = map (\<lambda>p. (fst p,
                        case read_slot (snd p) of
                          Inl e \<Rightarrow> Inl e
                        | Inr v \<Rightarrow> safeSerialize h m (d + 1) v))
                      (filter (\<lambda>p. \<not> skipped_key (fst p)) props);
                    result = foldl (\<lambda>result p.
                        case snd p of
                          Inl e \<Rightarrow> set_field (fst p) (JStr ''[Access Denied]'') result
                        | Inr v \<Rightarrow> set_field (fst p) v result) [] attempts
                in if enum_throws then Inr (JStr ''[Object - Access Denied]'')
                   else Inr (JObj result)))"
  subgoal by (subst safeSerialize.simps) simp
  subgoal by (subst safeSerialize.simps) simp
  subgoal by (subst safeSerialize.simps) simp
  subgoal by (subst safeSerialize.simps) simp
  subgoal by (subst safeSerialize.simps) simp
  subgoal by (subst safeSerialize.simps) simp
  subgoal by (subst safeSerialize.simps) simp
  subgoal by (subst safeSerialize.simps) simp
  done

lemma safeSerialize_nesting:
  "safeSerialize h maxDepth d obj = Inr r \<Longrightarrow> nesting r \<le> Suc maxDepth - d"
proof (induction h maxDepth d obj arbitrary: r rule: safeSerialize.induct)
  case (1 h maxDepth currentDepth obj)
  show ?case
  proof (cases "maxDepth < currentDepth")
    case True
    then show ?thesis using "1.prems" by (auto simp add: safeSerialize_beyond)
  next
    case False
    note deep = False
    show ?thesis
    proof (cases obj)
      case (HRef a)
      show ?thesis
      proof (cases "h a")
        case (HArray items)
        show ?thesis
        proof (cases "collect (map (\<lambda>item. case read_slot item of Inl e \<Rightarrow> Inl e
                 | Inr v \<Rightarrow> safeSerialize h maxDepth (currentDepth + 1) v) items)")
          case (Inl e)
          then show ?thesis using "1.prems" deep HRef HArray
            by (subst (asm) safeSerialize.simps) auto
        next
          case (Inr rs)
          then have r: "r = JArr rs" using "1.prems" deep HRef HArray
            by (subst (asm) safeSerialize.simps) auto
          have "\<forall>x \<in> set rs. nesting x \<le> Suc maxDepth - (currentDepth + 1)"
          proof
            fix x assume "x \<in> set rs"
            then have "Inr x \<in> set (map (\<lambda>item. case read_slot item of Inl e \<Rightarrow> Inl e
                 | Inr v \<Rightarrow> safeSerialize h maxDepth (currentDepth + 1) v) items)"
              using collect_Inr [OF Inr] by (metis image_eqI list.set_map)
            then obtain item where item: "item \<in> set items"
              and eq: "(case read_slot item of Inl e \<Rightarrow> Inl e
                 | Inr v \<Rightarrow> safeSerialize h maxDepth (currentDepth + 1) v) = Inr x"
              by auto
            then obtain v where v: "read_slot item = Inr v"
              and ser: "safeSerialize h maxDepth (currentDepth + 1) v = Inr x"
              by (auto split: sum.splits)
            show "nesting x \<le> Suc maxDepth - (currentDepth + 1)"
              using "1.IH"(1) [OF deep HRef HArray item v ser] .
          qed
          then have "foldr max (map nesting rs) 0 \<le> maxDepth - currentDepth"
            by (simp add: foldr_max_le)
          then show ?thesis using r deep by simp
        qed
      next
        case (HObject props enum_throws)
        define attempts where "attempts = map (\<lambda>p. (fst p,
                        case read_slot (snd p) of
                          Inl e \<Rightarrow> Inl e
                        | Inr v \<Rightarrow> safeSerialize h maxDepth (currentDepth + 1) v))
                      (filter (\<lambda>p. \<not> skipped_key (fst p)) props)"
        define result where "result = foldl (\<lambda>result p.
                        case snd p of
                          Inl e \<Rightarrow> set_field (fst p) (JStr ''[Access Denied]'') result
                        | Inr v \<Rightarrow> set_field (fst p) v result) [] attempts"
        have r: "r = (if enum_throws then JStr ''[Object - Access Denied]'' else JObj result)"
          using "1.prems" deep HRef HObject
          by (subst (asm) safeSerialize.simps) (auto simp: Let_def attempts_def result_def)
        have "\<forall>p \<in> set attempts. \<forall>v. snd p = Inr v \<longrightarrow> nesting v \<le> maxDepth - currentDepth"
        proof (intro ballI allI impI)
          fix p v assume "p \<in> set attempts" and pv: "snd p = Inr v"
          then obtain q where q: "q \<in> set (filter (\<lambda>p. \<not> skipped_key (fst p)) props)"
            and eq: "(case read_slot (snd q) of Inl e \<Rightarrow> Inl e
                      | Inr v \<Rightarrow> safeSerialize h maxDepth (currentDepth + 1) v) = Inr v"
            by (auto simp: attempts_def)
          then obtain w where w: "read_slot (snd q) = Inr w"
            and ser: "safeSerialize h maxDepth (currentDepth + 1) w = Inr v"
            by (auto split: sum.splits)
          show "nesting v \<le> maxDepth - currentDepth"
            using "1.IH"(2) [OF deep HRef HObject q w ser] by simp
        qed
        then have "\<forall>kv \<in> set result. nesting (snd kv) \<le> maxDepth - currentDepth"
          unfolding result_def by (intro fill_result_bound) simp_all
        then have bound: "foldr max (map (\<lambda>p. nesting (snd p)) result) 0 \<le> maxDepth - currentDepth"
          by (simp add: foldr_max_le)
        show ?thesis
        proof (cases enum_throws)
          case True
          then show ?thesis using r by simp
        next
          case False
          then have "nesting r = Suc (foldr max (map (\<lambda>p. nesting (snd p)) result) 0)"
            using r by simp
          then show ?thesis using bound deep by arith
        qed
      qed
    qed (use "1.prems" deep in \<open>auto simp: safeSerialize_eval(1-7)\<close>)
  qed
qed

lemma cyclic_heap_array:
  "safeSerialize_default cyclic_heap (HRef 1)
     = Inr (JArr [JArr [JArr [JArr [JStr ''[Max Depth Reached]'']]]])"
  by (simp add: safeSerialize_default_def safeSerialize_eval cyclic_heap_def)

lemma cyclic_heap_object:
  "safeSerialize_default cyclic_heap (HRef 0)
     = Inr (JObj [(''self'', JObj [(''self'', JObj [(''self'',
              JObj [(''self'', JStr ''[Max Depth Reached]''),
                    (''name'', JStr ''[Max Depth Reached]'')]),
              (''name'', JStr ''app'')]), (''name'', JStr ''app'')]), (''name'', JStr ''app'')])"
  by (simp add: safeSerialize_default_def safeSerialize_eval cyclic_heap_def skipped_key_def set_field_def)




section \<open>How the events change the state\<close>

lemma capture_test_True:
  "capture_test f url = Inr True \<longleftrightarrow> (\<exists>s. url = UrlString s \<and> s \<noteq> [] \<and> f s)"
  by (cases url) auto

lemma load_listener_frame [simp]:
  "requests (xhr_load_listener P r clk st l) = requests st @ [fst l]"
  "awaited (xhr_load_listener P r clk st l) = awaited st"
  "xhrs (xhr_load_listener P r clk st l) = xhrs st"
  "requestCounter (xhr_load_listener P r clk st l) = requestCounter st"
  "window_fetch (xhr_load_listener P r clk st l) = window_fetch st"
  "xhr_open (xhr_load_listener P r clk st l) = xhr_open st"
  "xhr_send (xhr_load_listener P r clk st l) = xhr_send st"
  "downloads (xhr_load_listener P r clk st l) = downloads st"
  "a \<noteq> fst l \<Longrightarrow> store (xhr_load_listener P r clk st l) a = store st a"
  "get_field ''url'' (store (xhr_load_listener P r clk st l) a) = get_field ''url'' (store st a)"
  by (simp_all add: xhr_load_listener_def Let_def split: option.splits)

lemma error_listener_frame [simp]:
  "requests (xhr_error_listener st l) = requests st @ [fst l]"
  "awaited (xhr_error_listener st l) = awaited st"
  "xhrs (xhr_error_listener st l) = xhrs st"
  "requestCounter (xhr_error_listener st l) = requestCounter st"
  "window_fetch (xhr_error_listener st l) = window_fetch st"
  "xhr_open (xhr_error_listener st l) = xhr_open st"
  "xhr_send (xhr_error_listener st l) = xhr_send st"
  "downloads (xhr_error_listener st l) = downloads st"
  "a \<noteq> fst l \<Longrightarrow> store (xhr_error_listener st l) a = store st a"
  "get_field ''url'' (store (xhr_error_listener st l) a) = get_field ''url'' (store st a)"
  by (simp_all add: xhr_error_listener_def Let_def)

lemma load_all_frame [simp]:
  "requests (foldl (xhr_load_listener P r clk) st ls) = requests st @ map fst ls"
  "awaited (foldl (xhr_load_listener P r clk) st ls) = awaited st"
  "xhrs (foldl (xhr_load_listener P r clk) st ls) = xhrs st"
  "requestCounter (foldl (xhr_load_listener P r clk) st ls) = requestCounter st"
  "window_fetch (foldl (xhr_load_listener P r clk) st ls) = window_fetch st"
  "xhr_open (foldl (xhr_load_listener P r clk) st ls) = xhr_open st"
  "xhr_send (foldl (xhr_load_listener P r clk) st ls) = xhr_send st"
  "downloads (foldl (xhr_load_listener P r clk) st ls) = downloads st"
  "get_field ''url'' (store (foldl (xhr_load_listener P r clk) st ls) a) = get_field ''url'' (store st a)"
  by (induction ls arbitrary: st; simp)+

lemma load_all_store:
  "a \<notin> fst ` set ls \<Longrightarrow> store (foldl (xhr_load_listener P r clk) st ls) a = store st a"
  by (induction ls arbitrary: st) auto

lemma error_all_frame [simp]:
  "requests (foldl xhr_error_listener st ls) = requests st @ map fst ls"
  "awaited (foldl xhr_error_listener st ls) = awaited st"
  "xhrs (foldl xhr_error_listener st ls) = xhrs st"
  "requestCounter (foldl xhr_error_listener st ls) = requestCounter st"
  "window_fetch (foldl xhr_error_listener st ls) = window_fetch st"
  "xhr_open (foldl xhr_error_listener st ls) = xhr_open st"
  "xhr_send (foldl xhr_error_listener st ls) = xhr_send st"
  "downloads (foldl xhr_error_listener st ls) = downloads st"
  "get_field ''url'' (store (foldl xhr_error_listener st ls) a) = get_field ''url'' (store st a)"
  by (induction ls arbitrary: st; simp)+

lemma error_all_store:
  "a \<notin> fst ` set ls \<Longrightarrow> store (foldl xhr_error_listener st ls) a = store st a"
  by (induction ls arbitrary: st) auto

lemma in_fst_set: "a \<in> fst ` set xs \<longleftrightarrow> (\<exists>t. (a, t) \<in> set xs)"
  by force

lemma in_live:
  "a \<in> live st \<longleftrightarrow> a \<in> set (requests st) \<or> (\<exists>t. (a, t) \<in> set (awaited st))
                     \<or> (\<exists>x t. (a, t) \<in> set (listeners (xhrs st x)))"
  by (auto simp: live_def in_fst_set)

lemma consistentI:
  "(\<And>a. a \<in> live st \<Longrightarrow> a \<le> requestCounter st \<and> url_in_scope (store st a)) \<Longrightarrow> consistent st"
  by (simp add: consistent_def)

lemma consistentD:
  "consistent st \<Longrightarrow> a \<in> live st \<Longrightarrow> a \<le> requestCounter st \<and> url_in_scope (store st a)"
  by (simp add: consistent_def)

lemma consistent_start: "consistent (start_capture clk)"
  by (simp add: consistent_def live_def start_capture_def new_xhr_def)

lemma consistent_frame:
  assumes "consistent st" and "live st' \<subseteq> live st" and "requestCounter st' = requestCounter st"
    and "\<And>a. get_field ''url'' (store st' a) = get_field ''url'' (store st a)"
  shows "consistent st'"
  using assms by (auto simp: consistent_def url_in_scope_def)

lemma open_frame [simp]:
  "listeners (xhrs (xhr_open_wrapper st x m u clk) y) = listeners (xhrs st y)"
  "requests (xhr_open_wrapper st x m u clk) = requests st"
  "awaited (xhr_open_wrapper st x m u clk) = awaited st"
  "store (xhr_open_wrapper st x m u clk) = store st"
  "requestCounter (xhr_open_wrapper st x m u clk) = requestCounter st"
  "window_fetch (xhr_open_wrapper st x m u clk) = window_fetch st"
  "xhr_open (xhr_open_wrapper st x m u clk) = xhr_open st"
  "xhr_send (xhr_open_wrapper st x m u clk) = xhr_send st"
  "downloads (xhr_open_wrapper st x m u clk) = downloads st"
  "captureUrl (xhrs (xhr_open_wrapper st x m u clk) x) = u"
  "captureStartTime (xhrs (xhr_open_wrapper st x m u clk) x) = Some (ms clk)"
  by (simp_all add: xhr_open_wrapper_def)

lemma consistent_open: "consistent st \<Longrightarrow> consistent (xhr_open_wrapper st x m u clk)"
  by (erule consistent_frame) (simp_all add: live_def)

lemma send_recorded:
  assumes "captureUrl (xhrs st x) = UrlString s" "s \<noteq> []" "inScope s"
  shows "requestCounter (fst (xhr_send_wrapper st x b clk)) = requestCounter st + 1"
    and "listeners (xhrs (fst (xhr_send_wrapper st x b clk)) y)
           = (if y = x then listeners (xhrs st x) @ [(requestCounter st + 1, captureStartTime (xhrs st x))]
              else listeners (xhrs st y))"
    and "requests (fst (xhr_send_wrapper st x b clk)) = requests st"
    and "awaited (fst (xhr_send_wrapper st x b clk)) = awaited st"
    and "store (fst (xhr_send_wrapper st x b clk)) a
           = (if a = requestCounter st + 1
              then [(''id'', JNum (int (requestCounter st + 1))), (''url'', JStr s),
                    (''method'', captureMethod (xhrs st x)), (''timestamp'', JStr (iso clk)),
                    (''type'', JStr ''xhr''), (''requestBody'', requestBody_of b)]
              else store st a)"
    and "snd (xhr_send_wrapper st x b clk) = PassedOn"
  using assms by (simp_all add: xhr_send_wrapper_def Let_def)

lemma send_not_recorded:
  assumes "capture_test inScope (captureUrl (xhrs st x)) \<noteq> Inr True"
  shows "fst (xhr_send_wrapper st x b clk) = st"
  using assms by (auto simp: xhr_send_wrapper_def Let_def split: sum.splits bool.splits)

lemma send_frame [simp]:
  "window_fetch (fst (xhr_send_wrapper st x b clk)) = window_fetch st"
  "xhr_open (fst (xhr_send_wrapper st x b clk)) = xhr_open st"
  "xhr_send (fst (xhr_send_wrapper st x b clk)) = xhr_send st"
  "downloads (fst (xhr_send_wrapper st x b clk)) = downloads st"
  by (simp_all add: xhr_send_wrapper_def Let_def split: sum.splits bool.splits)

lemma send_awaited [simp]: "awaited (fst (xhr_send_wrapper st x b clk)) = awaited st"
  by (auto simp: xhr_send_wrapper_def Let_def split: sum.splits bool.splits)

lemma send_requests [simp]: "requests (fst (xhr_send_wrapper st x b clk)) = requests st"
  by (auto simp: xhr_send_wrapper_def Let_def split: sum.splits bool.splits)

lemma consistent_send: 
  assumes "consistent st" shows "consistent (fst (xhr_send_wrapper st x b clk))"
proof (cases "capture_test inScope (captureUrl (xhrs st x)) = Inr True")
  case False
  then show ?thesis using assms by (simp add: send_not_recorded)
next
  case True
  then obtain s where s: "captureUrl (xhrs st x) = UrlString s" "s \<noteq> []" "inScope s"
    by (auto simp: capture_test_True)
  note eff = send_recorded [OF s, of b clk]
  show ?thesis
  proof (rule consistentI)
    fix a assume "a \<in> live (fst (xhr_send_wrapper st x b clk))"
    then have "a \<in> live st \<or> a = requestCounter st + 1"
      by (auto simp: in_live eff split: if_splits)
    then show "a \<le> requestCounter (fst (xhr_send_wrapper st x b clk))
               \<and> url_in_scope (store (fst (xhr_send_wrapper st x b clk)) a)"
      using consistentD [OF assms, of a] s by (auto simp: eff url_in_scope_def)
  qed
qed


lemma consistent_load:
  "consistent st \<Longrightarrow> consistent (foldl (xhr_load_listener P r clk) st (listeners (xhrs st x)))"
  by (erule consistent_frame) (auto simp: in_live)

lemma consistent_error:
  "consistent st \<Longrightarrow> consistent (foldl xhr_error_listener st (listeners (xhrs st x)))"
  by (erule consistent_frame) (auto simp: in_live)

lemma fetch_recorded:
  assumes "s \<noteq> []" "inScope s"
  shows "requestCounter (fst (fetch_wrapper st (UrlString s) opts clk)) = requestCounter st + 1"
    and "awaited (fst (fetch_wrapper st (UrlString s) opts clk))
           = awaited st @ [(requestCounter st + 1, ms clk)]"
    and "requests (fst (fetch_wrapper st (UrlString s) opts clk)) = requests st"
    and "xhrs (fst (fetch_wrapper st (UrlString s) opts clk)) = xhrs st"
    and "store (fst (fetch_wrapper st (UrlString s) opts clk)) a
           = (if a = requestCounter st + 1
              then [(''id'', JNum (int (requestCounter st + 1))), (''url'', JStr s),
                    (''method'', js_or (get_field ''method'' opts) (JStr ''GET'')),
                    (''timestamp'', JStr (iso clk)), (''type'', JStr ''fetch''),
                    (''requestBody'', js_or (get_field ''body'' opts) JNull)]
              else store st a)"
    and "snd (fetch_wrapper st (UrlString s) opts clk) = Awaiting (requestCounter st + 1)"
  using assms by (simp_all add: fetch_wrapper_def Let_def)

lemma fetch_not_recorded:
  assumes "capture_test inScope url \<noteq> Inr True"
  shows "fst (fetch_wrapper st url opts clk) = st"
  using assms by (auto simp: fetch_wrapper_def Let_def split: sum.splits bool.splits)

lemma fetch_frame [simp]:
  "window_fetch (fst (fetch_wrapper st url opts clk)) = window_fetch st"
  "xhr_open (fst (fetch_wrapper st url opts clk)) = xhr_open st"
  "xhr_send (fst (fetch_wrapper st url opts clk)) = xhr_send st"
  "downloads (fst (fetch_wrapper st url opts clk)) = downloads st"
  "xhrs (fst (fetch_wrapper st url opts clk)) = xhrs st"
  "requests (fst (fetch_wrapper st url opts clk)) = requests st"
  by (simp_all add: fetch_wrapper_def Let_def split: sum.splits bool.splits)

lemma consistent_fetch:
  assumes "consistent st" shows "consistent (fst (fetch_wrapper st url opts clk))"
proof (cases "capture_test inScope url = Inr True")
  case False
  then show ?thesis using assms by (simp add: fetch_not_recorded)
next
  case True
  then obtain s where s: "url = UrlString s" "s \<noteq> []" "inScope s"
    by (auto simp: capture_test_True)
  note eff = fetch_recorded [OF s(2,3), of st opts clk]
  show ?thesis unfolding s(1)
  proof (rule consistentI)
    fix a assume "a \<in> live (fst (fetch_wrapper st (UrlString s) opts clk))"
    then have "a \<in> live st \<or> a = requestCounter st + 1"
      by (auto simp: in_live eff)
    then show "a \<le> requestCounter (fst (fetch_wrapper st (UrlString s) opts clk))
               \<and> url_in_scope (store (fst (fetch_wrapper st (UrlString s) opts clk)) a)"
      using consistentD [OF assms, of a] s by (auto simp: eff url_in_scope_def)
  qed
qed

lemma resume_frame [simp]:
  "requests (fst (fetch_wrapper_resume P st c out clk)) = requests st @ [fst c]"
  "awaited (fst (fetch_wrapper_resume P st c out clk)) = filter (\<lambda>i. fst i \<noteq> fst c) (awaited st)"
  "xhrs (fst (fetch_wrapper_resume P st c out clk)) = xhrs st"
  "requestCounter (fst (fetch_wrapper_resume P st c out clk)) = requestCounter st"
  "window_fetch (fst (fetch_wrapper_resume P st c out clk)) = window_fetch st"
  "xhr_open (fst (fetch_wrapper_resume P st c out clk)) = xhr_open st"
  "xhr_send (fst (fetch_wrapper_resume P st c out clk)) = xhr_send st"
  "downloads (fst (fetch_wrapper_resume P st c out clk)) = downloads st"
  "a \<noteq> fst c \<Longrightarrow> store (fst (fetch_wrapper_resume P st c out clk)) a = store st a"
  "get_field ''url'' (store (fst (fetch_wrapper_resume P st c out clk)) a) = get_field ''url'' (store st a)"
  "snd (fetch_wrapper_resume P st c out clk) = out"
  by (simp_all add: fetch_wrapper_resume_def Let_def split: outcome.splits option.splits)

lemma consistent_resume:
  "consistent st \<Longrightarrow> map_of (awaited st) reqId = Some t
     \<Longrightarrow> consistent (fst (fetch_wrapper_resume P st (reqId, t) out clk))"
  by (erule consistent_frame) (use map_of_SomeD in \<open>fastforce simp: in_live\<close>)+

lemma stop_frame [simp]:
  "requests (fst (stopCapture st clk href d)) = requests st"
  "awaited (fst (stopCapture st clk href d)) = awaited st"
  "xhrs (fst (stopCapture st clk href d)) = xhrs st"
  "store (fst (stopCapture st clk href d)) = store st"
  "requestCounter (fst (stopCapture st clk href d)) = requestCounter st"
  by (simp_all add: stopCapture_def Let_def)

lemma consistent_stop: "consistent st \<Longrightarrow> consistent (fst (stopCapture st clk href d))"
  by (erule consistent_frame) (simp_all add: live_def)

lemma consistent_step: "consistent st \<Longrightarrow> consistent (step P st e)"
  by (cases e)
    (auto simp: consistent_open consistent_send consistent_load consistent_error
       consistent_fetch consistent_resume consistent_stop split: option.splits)

lemma run_Nil [simp]: "run P st [] = st"
  by (simp add: run_def)

lemma run_Cons [simp]: "run P st (e # evs) = run P (step P st e) evs"
  by (simp add: run_def)

lemma run_append [simp]: "run P st (evs @ evs') = run P (run P st evs) evs'"
  by (simp add: run_def)

lemma consistent_run: "consistent st \<Longrightarrow> consistent (run P st evs)"
  by (induction evs arbitrary: st) (simp_all add: consistent_step)

lemma recorded_in_scope:
  "a \<in> set (requests (run P (start_capture clk0) evs))
     \<Longrightarrow> url_in_scope (store (run P (start_capture clk0) evs) a)"
  using consistentD [OF consistent_run [OF consistent_start], of a P clk0 evs]
  by (simp add: in_live)


lemma send_listeners_mono:
  "l \<in> set (listeners (xhrs st y)) \<Longrightarrow> l \<in> set (listeners (xhrs (fst (xhr_send_wrapper st x b clk)) y))"
  by (auto simp: xhr_send_wrapper_def Let_def split: sum.splits bool.splits)

lemma listeners_mono_step:
  "l \<in> set (listeners (xhrs st x)) \<Longrightarrow> l \<in> set (listeners (xhrs (step P st e) x))"
  by (cases e) (auto simp: send_listeners_mono split: option.splits)

lemma listeners_mono_run:
  "l \<in> set (listeners (xhrs st x)) \<Longrightarrow> l \<in> set (listeners (xhrs (run P st evs) x))"
  by (induction evs arbitrary: st) (simp_all add: listeners_mono_step)

lemma send_store_stable:
  "a \<le> requestCounter st \<Longrightarrow> store (fst (xhr_send_wrapper st x b clk)) a = store st a"
  by (auto simp: xhr_send_wrapper_def Let_def split: sum.splits bool.splits)

lemma fetch_store_stable:
  "a \<le> requestCounter st \<Longrightarrow> store (fst (fetch_wrapper st url opts clk)) a = store st a"
  by (auto simp: fetch_wrapper_def Let_def split: sum.splits bool.splits)

lemma counter_mono_send: "requestCounter st \<le> requestCounter (fst (xhr_send_wrapper st x b clk))"
  by (auto simp: xhr_send_wrapper_def Let_def split: sum.splits bool.splits)

lemma counter_mono_fetch: "requestCounter st \<le> requestCounter (fst (fetch_wrapper st url opts clk))"
  by (auto simp: fetch_wrapper_def Let_def split: sum.splits bool.splits)

lemma counter_mono_step: "requestCounter st \<le> requestCounter (step P st e)"
  by (cases e) (auto simp: counter_mono_send counter_mono_fetch split: option.splits)

lemma url_stable_step:
  "a \<le> requestCounter st \<Longrightarrow> get_field ''url'' (store (step P st e) a) = get_field ''url'' (store st a)"
  by (cases e) (auto simp: send_store_stable fetch_store_stable split: option.splits)

lemma url_stable_run:
  "a \<le> requestCounter st \<Longrightarrow> get_field ''url'' (store (run P st evs) a) = get_field ''url'' (store st a)"
proof (induction evs arbitrary: st)
  case Nil
  then show ?case by simp
next
  case (Cons e evs)
  have "a \<le> requestCounter (step P st e)"
    using Cons.prems counter_mono_step [of st P e] by simp
  then show ?case using Cons.IH [of "step P st e"] Cons.prems by (simp add: url_stable_step)
qed

lemma requests_mono_step: "a \<in> set (requests st) \<Longrightarrow> a \<in> set (requests (step P st e))"
  by (cases e) (auto split: option.splits)

lemma requests_mono_run: "a \<in> set (requests st) \<Longrightarrow> a \<in> set (requests (run P st evs))"
  by (induction evs arbitrary: st) (simp_all add: requests_mono_step)

lemma fetch_awaited_mono:
  "c \<in> set (awaited st) \<Longrightarrow> c \<in> set (awaited (fst (fetch_wrapper st url opts clk)))"
  by (auto simp: fetch_wrapper_def Let_def split: sum.splits bool.splits)

lemma pending_or_recorded_step:
  assumes "(\<exists>t. (a, t) \<in> set (awaited st)) \<or> a \<in> set (requests st)"
  shows "(\<exists>t. (a, t) \<in> set (awaited (step P st e))) \<or> a \<in> set (requests (step P st e))"
proof (cases e)
  case (FetchSettled reqId out clk)
  show ?thesis
  proof (cases "map_of (awaited st) reqId")
    case None
    then show ?thesis using assms FetchSettled by simp
  next
    case (Some t)
    then show ?thesis using assms FetchSettled by (cases "a = reqId") auto
  qed
next
  case (Fetch url opts clk)
  then show ?thesis using assms fetch_awaited_mono [of _ st url opts clk] by auto
qed (use assms in auto)

lemma pending_or_recorded_run:
  "(\<exists>t. (a, t) \<in> set (awaited st)) \<or> a \<in> set (requests st)
     \<Longrightarrow> (\<exists>t. (a, t) \<in> set (awaited (run P st evs))) \<or> a \<in> set (requests (run P st evs))"
proof (induction evs arbitrary: st)
  case Nil
  then show ?case by simp
next
  case (Cons e evs)
  show ?case using Cons.IH [OF pending_or_recorded_step [OF Cons.prems, of P e]] by simp
qed

lemma settled_is_recorded:
  assumes "(\<exists>t. (a, t) \<in> set (awaited st)) \<or> a \<in> set (requests st)"
  shows "a \<in> set (requests (step P st (FetchSettled a out clk)))"
proof (cases "map_of (awaited st) a")
  case None
  then have "\<not> (\<exists>t. (a, t) \<in> set (awaited st))"
    by (metis in_fst_set map_of_eq_None_iff)
  then show ?thesis using assms None by simp
next
  case (Some t)
  then show ?thesis by simp
qed


section \<open>The filter decides what is recorded\<close>

lemma fetch_then_settle_recorded:
  assumes "s \<noteq> []" "inScope s" "window_fetch st = Wrapper"
    and n_def: "n = requestCounter st + 1"
    and st'_def: "st' = run P st ([Fetch (UrlString s) opts clk] @ evs @ [FetchSettled n out clk'])"
  shows "n \<in> set (requests st')" and "get_field ''url'' (store st' n) = JStr s"
proof -
  let ?s1 = "step P st (Fetch (UrlString s) opts clk)"
  note eff = fetch_recorded [OF assms(1,2), of st opts clk]
  have s1: "?s1 = fst (fetch_wrapper st (UrlString s) opts clk)"
    using assms(3) by simp
  have pend: "(\<exists>t. (n, t) \<in> set (awaited ?s1)) \<or> n \<in> set (requests ?s1)"
    unfolding s1 by (auto simp: eff n_def)
  have cnt: "n \<le> requestCounter ?s1" unfolding s1 by (simp add: eff n_def)
  have url1: "get_field ''url'' (store ?s1 n) = JStr s" unfolding s1 by (simp add: eff n_def)
  let ?s2 = "run P ?s1 evs"
  have st': "st' = run P ?s1 (evs @ [FetchSettled n out clk'])"
    by (simp only: st'_def append_Cons append_Nil run_Cons)
  have "n \<in> set (requests (step P ?s2 (FetchSettled n out clk')))"
    by (rule settled_is_recorded [OF pending_or_recorded_run [OF pend]])
  then show "n \<in> set (requests st')"
    by (simp only: st' run_append run_Cons run_Nil)
  have "get_field ''url'' (store (run P ?s1 (evs @ [FetchSettled n out clk'])) n)
          = get_field ''url'' (store ?s1 n)"
    by (rule url_stable_run [OF cnt])
  then show "get_field ''url'' (store st' n) = JStr s"
    by (simp only: st' url1)
qed

lemma send_then_complete_recorded:
  assumes "s \<noteq> []" "inScope s" "xhr_open st = Wrapper" "xhr_send st = Wrapper"
    and "e = XhrLoad x r clk'' \<or> e = XhrError x"
    and n_def: "n = requestCounter st + 1"
    and st'_def: "st' = run P st ([XhrOpen x m (UrlString s) clk, XhrSend x b clk'] @ evs @ [e])"
  shows "n \<in> set (requests st')" and "get_field ''url'' (store st' n) = JStr s"
proof -
  let ?s0 = "xhr_open_wrapper st x m (UrlString s) clk"
  let ?s1 = "fst (xhr_send_wrapper ?s0 x b clk')"
  have u: "captureUrl (xhrs ?s0 x) = UrlString s" by simp
  note eff = send_recorded [OF u assms(1,2), of b clk']
  have steps: "run P st [XhrOpen x m (UrlString s) clk, XhrSend x b clk'] = ?s1"
    using assms(3,4) by simp
  have l: "(n, Some (ms clk)) \<in> set (listeners (xhrs ?s1 x))"
    by (simp add: eff n_def)
  have cnt: "n \<le> requestCounter ?s1" by (simp add: eff n_def)
  have url1: "get_field ''url'' (store ?s1 n) = JStr s" by (simp add: eff n_def)
  let ?s2 = "run P ?s1 evs"
  have l2: "(n, Some (ms clk)) \<in> set (listeners (xhrs ?s2 x))"
    by (rule listeners_mono_run [OF l])
  have "n \<in> fst ` set (listeners (xhrs ?s2 x))"
    using l2 by (rule rev_image_eqI) simp
  then have "n \<in> set (requests (step P ?s2 e))"
    using assms(5) by (elim disjE) simp_all
  moreover have st': "st' = run P ?s1 (evs @ [e])"
    using steps by (simp only: st'_def run_append)
  ultimately show "n \<in> set (requests st')"
    by (simp only: run_append run_Cons run_Nil)
  have "get_field ''url'' (store (run P ?s1 (evs @ [e])) n) = get_field ''url'' (store ?s1 n)"
    by (rule url_stable_run [OF cnt])
  then show "get_field ''url'' (store st' n) = JStr s"
    by (simp only: st' url1)
qed

lemma inScope_samples:
  "inScope ''https://api.mpg.football/league''"
  "\<not> inScope ''https://other.com/x''"
  "simple_inScope ''https://api.mpg.football/league''"
  by (simp_all add: inScope_def simple_inScope_def)





end
